theory Spec2Isabelle
  imports
    Complex_Main
    "HOL-Library.Word"
    "HOL-Library.Char_ord"
    "HOL-Library.List_Lexorder"
    "HOL-Library.Multiset"
    "HOL-Library.AList"
begin

section \<open>Codes/utils.py: data loading and checkpoint wrappers\<close>

text \<open>
  A shallow embedding of \<^verbatim>\<open>Codes/utils.py\<close>. Python exceptions are values of
  \<open>error\<close>; a function that can raise returns \<open>error + 'a\<close>. The libraries the
  file calls (glob, OpenCV, the checkpoint saver) are not part of the repository:
  they are fields of the record \<open>env\<close>, so every statement holds for whatever they
  return. numpy arrays are nested lists (a frame is indexed [row][column][channel]).
  A float32 value is the real number it denotes, and every float32 operation of the
  code rounds its exact result to the nearest float32 (\<open>float32\<close> below).
\<close>

subsection \<open>Errors and Python primitives\<close>

datatype error =
  AssertionError | KeyError | IndexError | ValueError | ZeroDivisionError
  | CvError | OSError | SaverError

text \<open>Python list indexing \<^verbatim>\<open>xs[i]\<close>: a negative index counts from the end, an index
  outside \<open>-len .. len - 1\<close> raises IndexError.\<close>

definition py_index :: "'a list \<Rightarrow> int \<Rightarrow> error + 'a" where
  "py_index xs i =
     (let n = int (length xs); j = (if i < 0 then i + n else i)
      in if 0 \<le> j \<and> j < n then Inr (xs ! nat j) else Inl IndexError)"

text \<open>\<^verbatim>\<open>range(start, stop)\<close>: the integers from start up to stop - 1, none when
  \<open>stop \<le> start\<close>.\<close>

definition range :: "int \<Rightarrow> int \<Rightarrow> int list" where
  "range start stop = [start..stop - 1]"

text \<open>\<^verbatim>\<open>s.split(c)\<close> for a one-character separator: never empty.\<close>

fun split :: "char \<Rightarrow> string \<Rightarrow> string list" where
  "split c [] = [[]]"
| "split c (x # xs) =
     (if x = c then [] # split c xs
      else (case split c xs of w # ws \<Rightarrow> (x # w) # ws | [] \<Rightarrow> [[x]]))"

text \<open>\<^verbatim>\<open>os.path.join(a, b)\<close> of posixpath, for two components.\<close>

definition os_path_join :: "string \<Rightarrow> string \<Rightarrow> string" where
  "os_path_join a b =
     (if b \<noteq> [] \<and> hd b = CHR ''/'' then b
      else if a = [] \<or> last a = CHR ''/'' then a @ b
      else a @ ''/'' @ b)"

subsection \<open>Arrays\<close>

type_synonym image8 = "8 word list list list"
type_synonym frame = "real list list list"

text \<open>\<open>has_shape a h w c\<close>: the nested list \<open>a\<close> is an array of shape [h, w, c].\<close>

definition has_shape :: "'a list list list \<Rightarrow> nat \<Rightarrow> nat \<Rightarrow> nat \<Rightarrow> bool" where
  "has_shape a h w c \<longleftrightarrow>
     length a = h \<and> list_all (\<lambda>row. length row = w \<and> list_all (\<lambda>px. length px = c) row) a"

text \<open>\<^verbatim>\<open>np.concatenate(arrays, axis=2)\<close>: ValueError on an empty list and on
  arrays that differ in the first two dimensions; otherwise the channel vectors of
  each pixel are appended in the order of the list.\<close>

definition same_dims :: "frame \<Rightarrow> frame \<Rightarrow> bool" where
  "same_dims f g \<longleftrightarrow> length f = length g \<and> list_all2 (\<lambda>r s. length r = length s) f g"

definition concatenate_axis2 :: "frame list \<Rightarrow> error + frame" where
  "concatenate_axis2 fs =
     (case fs of
        [] \<Rightarrow> Inl ValueError
      | f # rest \<Rightarrow>
          if list_all (same_dims f) rest
          then Inr (map (\<lambda>i. map (\<lambda>j. concat (map (\<lambda>g. g ! i ! j) fs)) [0..<length (f ! i)])
                      [0..<length f])
          else Inl ValueError)"

subsection \<open>The environment: glob, OpenCV\<close>

record env =
  glob :: "string \<Rightarrow> string list"
  imread :: "string \<Rightarrow> image8 option"
  resize :: "image8 \<Rightarrow> nat \<times> nat \<Rightarrow> image8 option"

text \<open>\<open>imread\<close> is \<^verbatim>\<open>cv2.imread\<close> (None for a file it cannot decode), \<open>resize\<close> is
  \<^verbatim>\<open>cv2.resize(img, (width, height))\<close> (None where OpenCV raises). What the code
  relies on: a resized decoded image has shape [height, width, 3].\<close>

definition cv2_contract :: "env \<Rightarrow> bool" where
  "cv2_contract e \<longleftrightarrow>
     (\<forall>f img w h r. imread e f = Some img \<and> resize e img (w, h) = Some r \<longrightarrow> has_shape r h w 3)"

subsection \<open>np_load_frame\<close>

text \<open>float32: the real number nearest to \<open>x\<close> among those of the form
  \<open>n * 2 ^ (e - 23)\<close>, \<open>e\<close> the binary exponent of \<open>x\<close> kept within -126 .. 127,
  a tie going to the even \<open>n\<close> (IEEE 754 binary32, round to nearest even, for
  arguments below the overflow threshold; subnormals share the exponent -126).\<close>

definition round_even :: "real \<Rightarrow> int" where
  "round_even y =
     (let f = \<lfloor>y\<rfloor>; d = y - of_int f
      in if d < 1 / 2 then f else if 1 / 2 < d then f + 1 else if even f then f else f + 1)"

text \<open>\<open>exp_search n a\<close>: the greatest \<open>e\<close> among -125 .. n - 126 with \<open>2 ^ e \<le> a\<close>,
  and -126 when there is none.\<close>

primrec exp_search :: "nat \<Rightarrow> real \<Rightarrow> int" where
  "exp_search 0 a = - 126"
| "exp_search (Suc n) a = (if 2 powi (int n - 125) \<le> a then int n - 125 else exp_search n a)"

definition exponent32 :: "real \<Rightarrow> int" where
  "exponent32 x = exp_search 253 \<bar>x\<bar>"

definition float32 :: "real \<Rightarrow> real" where
  "float32 x = (let u = 2 powi (exponent32 x - 23) in of_int (round_even (x / u)) * u)"

text \<open>\<^verbatim>\<open>astype(np.float32)\<close> of a byte is exact; the quotient by 127.5 and the
  difference with 1.0 are float32 operations, each rounded.\<close>

definition normalize :: "8 word \<Rightarrow> real" where
  "normalize v = float32 (float32 (real (unat v) / 127.5) - 1.0)"

definition np_load_frame :: "env \<Rightarrow> string \<Rightarrow> nat \<Rightarrow> nat \<Rightarrow> error + frame" where
  "np_load_frame e filename resize_height resize_width =
     (case imread e filename of
        None \<Rightarrow> Inl CvError
      | Some image_decoded \<Rightarrow>
          (case resize e image_decoded (resize_width, resize_height) of
             None \<Rightarrow> Inl CvError
           | Some image_resized \<Rightarrow> Inr (map (map (map normalize)) image_resized)))"

subsection \<open>DataLoader\<close>

record video_info =
  path :: string
  frame :: "string list"
  length_info :: nat

text \<open>\<open>videos\<close> is the dictionary \<^verbatim>\<open>self.videos\<close>, kept in insertion order.\<close>

record DataLoader =
  dir :: string
  videos :: "(string \<times> video_info) list"
  resize_height :: nat
  resize_width :: nat

definition setup_video :: "env \<Rightarrow> (string \<times> video_info) list \<Rightarrow> string \<Rightarrow> (string \<times> video_info) list" where
  "setup_video e vs video =
     (let video_name = last (split (CHR ''/'') video);
          fr = sort (glob e (os_path_join video ''*.jpg''))
      in AList.update video_name \<lparr>path = video, frame = fr, length_info = length fr\<rparr> vs)"

definition DataLoader_setup :: "env \<Rightarrow> DataLoader \<Rightarrow> DataLoader" where
  "DataLoader_setup e ld =
     ld\<lparr>videos := foldl (setup_video e) (videos ld) (sort (glob e (os_path_join (dir ld) ''*'')))\<rparr>"

definition init :: "env \<Rightarrow> string \<Rightarrow> nat \<Rightarrow> nat \<Rightarrow> DataLoader" where
  "init e video_folder rh rw =
     DataLoader_setup e \<lparr>dir = video_folder, videos = [], resize_height = rh, resize_width = rw\<rparr>"

text \<open>\<^verbatim>\<open>__getitem__\<close>: the result and the loader after the call.\<close>

definition getitem :: "DataLoader \<Rightarrow> string \<Rightarrow> (error + video_info) \<times> DataLoader" where
  "getitem ld video_name =
     (if video_name \<in> set (map fst (videos ld))
      then (case map_of (videos ld) video_name of
              Some info \<Rightarrow> (Inr info, ld)
            | None \<Rightarrow> (Inl KeyError, ld))
      else (Inl AssertionError, ld))"

text \<open>The loop of \<^verbatim>\<open>get_video_clips\<close>: the dictionary lookup, the index and the load
  happen once per iteration, and the first exception ends the loop.\<close>

fun get_video_clips_loop ::
  "env \<Rightarrow> DataLoader \<Rightarrow> string \<Rightarrow> int list \<Rightarrow> frame list \<Rightarrow> error + frame list" where
  "get_video_clips_loop e ld video [] batch = Inr batch"
| "get_video_clips_loop e ld video (i # is) batch =
     (case map_of (videos ld) video of
        None \<Rightarrow> Inl KeyError
      | Some info \<Rightarrow>
          (case py_index (frame info) i of
             Inl err \<Rightarrow> Inl err
           | Inr filename \<Rightarrow>
               (case np_load_frame e filename (resize_height ld) (resize_width ld) of
                  Inl err \<Rightarrow> Inl err
                | Inr img \<Rightarrow> get_video_clips_loop e ld video is (batch @ [img]))))"

definition get_video_clips ::
  "env \<Rightarrow> DataLoader \<Rightarrow> string \<Rightarrow> int \<Rightarrow> int \<Rightarrow> (error + frame) \<times> DataLoader" where
  "get_video_clips e ld video start end =
     (case get_video_clips_loop e ld video (range start end) [] of
        Inl err \<Rightarrow> (Inl err, ld)
      | Inr batch \<Rightarrow> (concatenate_axis2 batch, ld))"

text \<open>\<^verbatim>\<open>rng.randint(low, high)\<close> of numpy's RandomState: a draw from the half-open
  interval \<open>low .. high - 1\<close>, ValueError when \<open>high \<le> low\<close>. The generator is
  seeded, so which value comes is fixed by the seed; the model keeps the values a
  draw can take.\<close>

definition randint :: "int \<Rightarrow> int \<Rightarrow> error + int list" where
  "randint low high = (if low < high then Inr [low..high - 1] else Inl ValueError)"

text \<open>\<^verbatim>\<open>__call__\<close> builds the generator \<^verbatim>\<open>video_clip_generator\<close>; the record holds the
  variables its closure captures and its own \<open>v_id\<close>. The dataset pipeline around
  it (prefetch, shuffle, batch) is the framework's.\<close>

record generator =
  video_info_list :: "video_info list"
  num_videos :: nat
  clip_length :: int
  gen_resize_height :: nat
  gen_resize_width :: nat
  v_id :: int

definition call :: "DataLoader \<Rightarrow> int \<Rightarrow> int \<Rightarrow> int \<Rightarrow> generator \<times> DataLoader" where
  "call ld batch_size time_steps num_pred =
     (let vil = map snd (videos ld)
      in (\<lparr>video_info_list = vil, num_videos = length vil,
           clip_length = time_steps + num_pred,
           gen_resize_height = resize_height ld, gen_resize_width = resize_width ld,
           v_id = - 1\<rparr>, ld))"

text \<open>The \<^verbatim>\<open>for frame_id in range(start, start + clip_length)\<close> loop.\<close>

fun video_clip_loop ::
  "env \<Rightarrow> video_info \<Rightarrow> nat \<Rightarrow> nat \<Rightarrow> int list \<Rightarrow> frame list \<Rightarrow> error + frame list" where
  "video_clip_loop e vi rh rw [] video_clip = Inr video_clip"
| "video_clip_loop e vi rh rw (frame_id # ids) video_clip =
     (case py_index (frame vi) frame_id of
        Inl err \<Rightarrow> Inl err
      | Inr filename \<Rightarrow>
          (case np_load_frame e filename rh rw of
             Inl err \<Rightarrow> Inl err
           | Inr img \<Rightarrow> video_clip_loop e vi rh rw ids (video_clip @ [img])))"

definition video_clip_at :: "env \<Rightarrow> generator \<Rightarrow> video_info \<Rightarrow> int \<Rightarrow> error + frame" where
  "video_clip_at e g vi start =
     (case video_clip_loop e vi (gen_resize_height g) (gen_resize_width g)
             (range start (start + clip_length g)) [] of
        Inl err \<Rightarrow> Inl err
      | Inr video_clip \<Rightarrow> concatenate_axis2 video_clip)"

text \<open>One iteration of the generator's \<^verbatim>\<open>while True\<close>: the generator after it and,
  for every value the draw of \<open>start\<close> can take, what the iteration yields or
  raises.\<close>

definition video_clip_generator_next ::
  "env \<Rightarrow> generator \<Rightarrow> error + (generator \<times> (int \<times> (error + frame)) list)" where
  "video_clip_generator_next e g =
     (if num_videos g = 0 then Inl ZeroDivisionError
      else
        let v = (v_id g + 1) mod int (num_videos g);
            vi = video_info_list g ! nat v
        in (case randint 0 (int (length_info vi) - clip_length g) of
              Inl err \<Rightarrow> Inl err
            | Inr starts \<Rightarrow>
                Inr (g\<lparr>v_id := v\<rparr>, map (\<lambda>start. (start, video_clip_at e g vi start)) starts)))"

subsection \<open>Checkpoint wrapper\<close>

text \<open>The calls \<^verbatim>\<open>save\<close> makes outside the program, in order. \<open>world\<close> is what
  they answer: whether a path exists, and whether \<^verbatim>\<open>os.makedirs\<close> and \<^verbatim>\<open>saver.save\<close>
  raise (\<open>Some err\<close>) or return (\<open>None\<close>).\<close>

datatype 'sess effect =
  Makedirs string | SaverSave 'sess string int | Print string

record 'sess world =
  path_exists :: "string \<Rightarrow> bool"
  makedirs :: "string \<Rightarrow> error option"
  saver_save :: "'sess \<Rightarrow> string \<Rightarrow> int \<Rightarrow> error option"

definition save :: "'sess world \<Rightarrow> 'sess \<Rightarrow> string \<Rightarrow> int \<Rightarrow> 'sess effect list \<times> error option" where
  "save w sess logdir step =
     (let model_name = ''model.ckpt'';
          checkpoint_path = os_path_join logdir model_name;
          (made, failed) =
            (if \<not> path_exists w logdir then ([Makedirs logdir], makedirs w logdir)
             else ([], None))
      in case failed of
           Some err \<Rightarrow> (made, Some err)
         | None \<Rightarrow>
             (case saver_save w sess checkpoint_path step of
                Some err \<Rightarrow> (made @ [SaverSave sess checkpoint_path step], Some err)
              | None \<Rightarrow>
                  (made @ [SaverSave sess checkpoint_path step,
                           Print ''The checkpoint has been created.''], None)))"

subsection \<open>Vocabulary of the statements\<close>

text \<open>\<open>channel_concat h w fs\<close>: the frames \<open>fs\<close>, each of shape [h, w, _], concatenated
  along the channel axis. \<open>loads\<close>: the file decodes and resizes; \<open>loaded\<close>: the
  frame \<^verbatim>\<open>np_load_frame\<close> returns for it. \<open>py_pos xs i\<close>: the position Python's
  \<^verbatim>\<open>xs[i]\<close> reads.\<close>

definition channel_concat :: "nat \<Rightarrow> nat \<Rightarrow> frame list \<Rightarrow> frame" where
  "channel_concat h w fs =
     map (\<lambda>i. map (\<lambda>j. concat (map (\<lambda>g. g ! i ! j) fs)) [0..<w]) [0..<h]"

definition loaded :: "env \<Rightarrow> nat \<Rightarrow> nat \<Rightarrow> string \<Rightarrow> frame" where
  "loaded e rh rw filename = projr (np_load_frame e filename rh rw)"

definition loads :: "env \<Rightarrow> nat \<Rightarrow> nat \<Rightarrow> string \<Rightarrow> bool" where
  "loads e rh rw filename = (case np_load_frame e filename rh rw of Inr _ \<Rightarrow> True | Inl _ \<Rightarrow> False)"

definition py_pos :: "'a list \<Rightarrow> int \<Rightarrow> nat" where
  "py_pos xs i = nat (if i < 0 then i + int (length xs) else i)"

text \<open>The invariant of \<^verbatim>\<open>self.videos\<close>: \<open>length\<close> counts the frames, the frames are
  sorted, and they are the paths glob returns for \<^verbatim>\<open>*.jpg\<close> under the video's
  path.\<close>

definition video_ok :: "env \<Rightarrow> video_info \<Rightarrow> bool" where
  "video_ok e info \<longleftrightarrow>
     length_info info = length (frame info) \<and> sorted (frame info)
     \<and> mset (frame info) = mset (glob e (os_path_join (path info) ''*.jpg''))"

definition loader_inv :: "env \<Rightarrow> DataLoader \<Rightarrow> bool" where
  "loader_inv e ld \<longleftrightarrow> list_all (\<lambda>(name, info). video_ok e info) (videos ld)"

subsection \<open>An example environment\<close>

text \<open>A directory \<open>data\<close> with the videos v1 (three frames) and v2 (two frames),
  listed out of order by glob. The first frame of v1 decodes to a black pixel, the
  second to a white one, every other file to the pixel (0, 128, 255); resizing
  repeats the pixel.\<close>

definition ex_pixel :: "8 word list" where
  "ex_pixel = [0, 128, 255]"

definition ex_env :: env where
  "ex_env =
     \<lparr>glob = (\<lambda>pat.
        if pat = ''data/*'' then [''data/v2'', ''data/v1'']
        else if pat = ''data/v1/*.jpg'' then [''data/v1/b.jpg'', ''data/v1/c.jpg'', ''data/v1/a.jpg'']
        else if pat = ''data/v2/*.jpg'' then [''data/v2/1.jpg'', ''data/v2/0.jpg'']
        else []),
      imread = (\<lambda>f.
        if f = ''data/v1/a.jpg'' then Some [[[0, 0, 0]]]
        else if f = ''data/v1/b.jpg'' then Some [[[255, 255, 255]]]
        else Some [[ex_pixel]]),
      resize = (\<lambda>img (w, h). Some (replicate h (replicate w (hd (hd img)))))\<rparr>"

definition ex_loader :: DataLoader where
  "ex_loader = init ex_env ''data'' 1 1"

text \<open>The generator \<^verbatim>\<open>__call__(1, 1, 1)\<close> builds on the example loader: clips of two
  frames.\<close>

definition ex_generator :: generator where
  "ex_generator = fst (call ex_loader 1 1 1)"

text \<open>A world where only \<open>logs\<close> exists, \<^verbatim>\<open>os.makedirs\<close> fails on the empty path
  only, and the saver never fails.\<close>

definition ex_world :: "unit world" where
  "ex_world =
     \<lparr>path_exists = (\<lambda>p. p = ''logs''),
      makedirs = (\<lambda>p. if p = [] then Some OSError else None),
      saver_save = (\<lambda>sess p step. None)\<rparr>"

section \<open>Properties\<close>

subsection \<open>Rounding to float32\<close>

lemma round_even_core:
  fixes f :: int and y d :: real
  assumes "d = y - of_int f" and "0 \<le> d" and "d < 1"
    and "r = (if d < 1 / 2 then f else if 1 / 2 < d then f + 1 else if even f then f else f + 1)"
  shows "(r = f \<or> r = f + 1 \<and> of_int f < y) \<and> \<bar>of_int r - y\<bar> \<le> 1 / 2"
  using assms by (auto split: if_splits)

lemma round_even_floor:
  "(round_even y = \<lfloor>y\<rfloor> \<or> round_even y = \<lfloor>y\<rfloor> + 1 \<and> of_int \<lfloor>y\<rfloor> < y)
   \<and> \<bar>of_int (round_even y) - y\<bar> \<le> 1 / 2"
proof -
  define f where "f = \<lfloor>y\<rfloor>"
  define d where "d = y - of_int f"
  have "of_int f \<le> y" unfolding f_def by (rule of_int_floor_le)
  moreover have "y < of_int f + 1" unfolding f_def by simp
  ultimately have d: "0 \<le> d" "d < 1" unfolding d_def by simp_all
  have r: "round_even y =
      (if d < 1 / 2 then f else if 1 / 2 < d then f + 1 else if even f then f else f + 1)"
    unfolding round_even_def Let_def d_def f_def ..
  show ?thesis using round_even_core[OF d_def d r] unfolding f_def .
qed

lemma round_even_err: "\<bar>of_int (round_even y) - y\<bar> \<le> 1 / 2"
  using round_even_floor[of y] by (rule conjunct2)

lemma round_even_ge:
  assumes "of_int m \<le> y"
  shows "m \<le> round_even y"
proof -
  define f where "f = \<lfloor>y\<rfloor>"
  have "m \<le> f" unfolding f_def using assms by (simp add: le_floor_iff)
  moreover have "round_even y = f \<or> round_even y = f + 1"
    using round_even_floor[of y] unfolding f_def by blast
  ultimately show ?thesis by auto
qed

lemma round_even_le:
  assumes "y \<le> of_int n"
  shows "round_even y \<le> n"
proof -
  define f where "f = \<lfloor>y\<rfloor>"
  have c: "round_even y = f \<or> round_even y = f + 1 \<and> of_int f < y"
    using round_even_floor[of y] unfolding f_def by blast
  have fy: "of_int f \<le> y" unfolding f_def by (rule of_int_floor_le)
  have "(of_int f :: real) \<le> of_int n" using fy assms by (rule order_trans)
  then have fn: "f \<le> n" by (simp only: of_int_le_iff)
  show ?thesis
  proof (cases "round_even y = f")
    case True
    then show ?thesis using fn by simp
  next
    case False
    then have r: "round_even y = f + 1" and lt: "of_int f < y" using c by auto
    have "(of_int f :: real) < of_int n" using lt assms by (rule less_le_trans)
    then have "f < n" by (simp only: of_int_less_iff)
    then show ?thesis using r by simp
  qed
qed

lemma exp_search_upper:
  assumes "a \<le> 2 powi k" and "0 \<le> k"
  shows "exp_search n a \<le> k"
proof (induction n)
  case 0
  have "exp_search 0 a = - 126" by (rule exp_search.simps(1))
  then show ?case using assms(2) by linarith
next
  case (Suc n)
  show ?case
  proof (cases "2 powi (int n - 125) \<le> a")
    case True
    have le: "(2::real) powi (int n - 125) \<le> 2 powi k" using True assms(1) by (rule order_trans)
    have one: "(1::real) < 2" by simp
    have "int n - 125 \<le> k" using one le assms(2) by (rule power_int_le_imp_le_exp)
    moreover have "exp_search (Suc n) a = int n - 125"
      by (simp only: exp_search.simps(2) True if_True)
    ultimately show ?thesis by (simp only:)
  next
    case False
    have "exp_search (Suc n) a = exp_search n a"
      by (simp only: exp_search.simps(2) False if_False)
    then show ?thesis using Suc by (simp only:)
  qed
qed

lemma exp_search_eq:
  assumes "2 powi e \<le> a" and "a < 2 powi (e + 1)" and "- 125 \<le> e" and "e \<le> int n - 126"
  shows "exp_search n a = e"
  using assms(4)
proof (induction n)
  case 0
  then show ?case using assms(3) by linarith
next
  case (Suc n)
  show ?case
  proof (cases "e = int n - 125")
    case True
    have "2 powi (int n - 125) \<le> a" using assms(1) unfolding True .
    then have "exp_search (Suc n) a = int n - 125"
      by (simp only: exp_search.simps(2) if_True)
    then show ?thesis unfolding True .
  next
    case False
    have lt: "e + 1 \<le> int n - 125" using Suc.prems False by linarith
    have one: "(1::real) \<le> 2" by simp
    have "(2::real) powi (e + 1) \<le> 2 powi (int n - 125)"
      using lt one by (rule power_int_increasing)
    then have "a < 2 powi (int n - 125)" using assms(2) by (rule less_le_trans[rotated])
    then have n: "\<not> 2 powi (int n - 125) \<le> a" by (simp only: not_le)
    have "exp_search (Suc n) a = exp_search n a"
      by (simp only: exp_search.simps(2) n if_False)
    moreover have "e \<le> int n - 126" using lt by linarith
    ultimately show ?thesis using Suc.IH by (simp only:)
  qed
qed

lemma exponent32_eq:
  assumes "2 powi e \<le> \<bar>x\<bar>" and "\<bar>x\<bar> < 2 powi (e + 1)" and "- 125 \<le> e" and "e \<le> 127"
  shows "exponent32 x = e"
proof -
  have "e \<le> int 253 - 126" using assms(4) by simp
  with assms(1-3) show ?thesis unfolding exponent32_def by (rule exp_search_eq)
qed

lemma float32_between:
  assumes x: "\<bar>x\<bar> \<le> 2" and a: "of_int a \<le> x" and b: "x \<le> of_int b"
  shows "of_int a \<le> float32 x \<and> float32 x \<le> of_int b"
proof -
  define e where "e = exponent32 x"
  define j where "j = nat (23 - e)"
  define u :: real where "u = 2 powi (e - 23)"
  have "\<bar>x\<bar> \<le> 2 powi 1" using x by simp
  then have e1: "e \<le> 1" unfolding e_def exponent32_def by (intro exp_search_upper) auto
  have u: "u = 1 / 2 ^ j"
    using e1 by (simp add: u_def j_def power_int_def field_simps)
  have upos: "0 < u" by (simp add: u)
  have f: "float32 x = of_int (round_even (x / u)) * u"
    by (simp add: float32_def e_def u_def Let_def)
  have "of_int (a * 2 ^ j) \<le> x / u" using a by (simp add: u field_simps)
  then have "a * 2 ^ j \<le> round_even (x / u)" by (rule round_even_ge)
  then have "(of_int (a * 2 ^ j) :: real) \<le> of_int (round_even (x / u))" by (simp only: of_int_le_iff)
  then have "of_int (a * 2 ^ j) * u \<le> of_int (round_even (x / u)) * u"
    using upos by (simp only: mult_le_cancel_right_pos)
  then have lo: "of_int a \<le> float32 x" by (simp add: f) (simp add: u)
  have "x / u \<le> of_int (b * 2 ^ j)" using b by (simp add: u field_simps)
  then have "round_even (x / u) \<le> b * 2 ^ j" by (rule round_even_le)
  then have "(of_int (round_even (x / u)) :: real) \<le> of_int (b * 2 ^ j)" by (simp only: of_int_le_iff)
  then have "of_int (round_even (x / u)) * u \<le> of_int (b * 2 ^ j) * u"
    using upos by (simp only: mult_le_cancel_right_pos)
  then have hi: "float32 x \<le> of_int b" by (simp add: f) (simp add: u)
  show ?thesis using lo hi by simp
qed

lemma float32_err:
  assumes "\<bar>x\<bar> \<le> 2 powi k" and "0 \<le> k"
  shows "\<bar>float32 x - x\<bar> \<le> 2 powi (k - 24)"
proof -
  define e where "e = exponent32 x"
  define u :: real where "u = 2 powi (e - 23)"
  have ek: "e \<le> k" unfolding e_def exponent32_def using assms by (intro exp_search_upper) auto
  have upos: "0 < u" by (simp add: u_def)
  have f: "float32 x = of_int (round_even (x / u)) * u"
    by (simp add: float32_def e_def u_def Let_def)
  have "float32 x - x = (of_int (round_even (x / u)) - x / u) * u"
    using upos by (simp add: f left_diff_distrib)
  then have "\<bar>float32 x - x\<bar> = \<bar>of_int (round_even (x / u)) - x / u\<bar> * u"
    using upos by (simp only: abs_mult abs_of_pos)
  also have "\<dots> \<le> (1 / 2) * u"
    using round_even_err[of "x / u"] upos by (intro mult_right_mono) auto
  also have "\<dots> = 2 powi (e - 24)"
    by (simp add: u_def power_int_diff)
  also have "\<dots> \<le> 2 powi (k - 24)"
    using ek by (intro power_int_increasing) auto
  finally show ?thesis .
qed

lemma round_even_of_int: "round_even (of_int k) = k"
  by (simp add: round_even_def)

lemma float32_0: "float32 0 = 0"
  by (simp add: float32_def round_even_def)

lemma float32_exact:
  assumes "exponent32 x = e" and "x = of_int k * 2 powi (e - 23)"
  shows "float32 x = x"
proof -
  have "x / 2 powi (e - 23) = of_int k" unfolding assms(2) by simp
  then show ?thesis
    unfolding float32_def Let_def assms(1) by (simp only: round_even_of_int) (simp add: assms(2))
qed

lemma float32_m1: "float32 (- 1) = - 1"
proof -
  have e: "exponent32 (- 1) = 0" by (rule exponent32_eq) simp_all
  show ?thesis by (rule float32_exact[OF e, of "- 8388608"]) simp
qed

lemma float32_1: "float32 1 = 1"
proof -
  have e: "exponent32 1 = 0" by (rule exponent32_eq) simp_all
  show ?thesis by (rule float32_exact[OF e, of "8388608"]) simp
qed

lemma float32_2: "float32 2 = 2"
proof -
  have e: "exponent32 2 = 1" by (rule exponent32_eq) simp_all
  show ?thesis by (rule float32_exact[OF e, of "8388608"]) simp
qed

lemma normalize_0: "normalize 0 = - 1"
  by (simp add: normalize_def float32_0 float32_m1)

lemma normalize_255: "normalize 255 = 1"
  by (simp add: normalize_def float32_2 float32_1)

lemma float32_128: "float32 (256 / 255) = 8421505 / 8388608"
proof -
  have e: "exponent32 (256 / 255) = 0" by (rule exponent32_eq) simp_all
  have r: "round_even (256 / 255 / 2 powi (0 - 23)) = 8421505"
    by (simp add: round_even_def Let_def)
  show ?thesis unfolding float32_def Let_def e r by simp
qed

lemma float32_128m1: "float32 (32897 / 8388608) = 32897 / 8388608"
proof -
  have e: "exponent32 (32897 / 8388608) = - 8"
    by (rule exponent32_eq) simp_all
  show ?thesis by (rule float32_exact[OF e, of "8421632"]) simp
qed

lemma normalize_128: "normalize 128 = 32897 / 8388608"
proof -
  have "normalize 128 = float32 (float32 (256 / 255) - 1)" by (simp add: normalize_def)
  also have "\<dots> = float32 (32897 / 8388608)" by (simp add: float32_128)
  finally show ?thesis by (simp only: float32_128m1)
qed

lemma unat_byte: "real (unat (v :: 8 word)) \<le> 255 \<and> 0 \<le> real (unat v)"
proof -
  have "unat v < 2 ^ 8" using unsigned_less[of v, where ?'a = nat] by simp
  then have "unat v \<le> 255" by simp
  then show ?thesis by (simp del: of_nat_unat)
qed

lemma normalize_range: "- 1 \<le> normalize v \<and> normalize v \<le> 1"
proof -
  define x where "x = real (unat v) / 127.5"
  define q where "q = float32 x"
  have x: "0 \<le> x" "x \<le> 2" using unat_byte[of v] by (simp_all add: x_def del: of_nat_unat)
  have "of_int 0 \<le> q \<and> q \<le> of_int 2"
    unfolding q_def using x by (intro float32_between) simp_all
  then have q: "- 1 \<le> q - 1" "q - 1 \<le> 1" by simp_all
  have "of_int (- 1) \<le> float32 (q - 1) \<and> float32 (q - 1) \<le> of_int 1"
    using q by (intro float32_between) simp_all
  then show ?thesis by (simp add: normalize_def q_def x_def del: of_nat_unat)
qed

lemma normalize_err: "\<bar>normalize v - (real (unat v) / 127.5 - 1)\<bar> \<le> 3 / 2 ^ 24"
proof -
  define x where "x = real (unat v) / 127.5"
  define q where "q = float32 x"
  have x: "0 \<le> x" "x \<le> 2" using unat_byte[of v] by (simp_all add: x_def del: of_nat_unat)
  have "of_int 0 \<le> q \<and> q \<le> of_int 2"
    unfolding q_def using x by (intro float32_between) simp_all
  then have "\<bar>q - 1\<bar> \<le> 1" by simp linarith
  then have q: "\<bar>q - 1\<bar> \<le> 2 powi 0" by simp
  have "\<bar>x\<bar> \<le> 2 powi 1" using x by simp
  then have e1: "\<bar>q - x\<bar> \<le> 2 powi (1 - 24)" unfolding q_def by (rule float32_err) simp
  have e2: "\<bar>float32 (q - 1) - (q - 1)\<bar> \<le> 2 powi (0 - 24)" using q by (rule float32_err) simp
  have "\<bar>float32 (q - 1) - (x - 1)\<bar> \<le> \<bar>float32 (q - 1) - (q - 1)\<bar> + \<bar>q - x\<bar>" by linarith
  also have "\<dots> \<le> 2 powi (0 - 24) + 2 powi (1 - 24)" using e1 e2 by linarith
  also have "\<dots> = 3 / 2 ^ 24" by simp
  finally show ?thesis by (simp add: normalize_def q_def x_def del: of_nat_unat)
qed

lemma getitem_state: "snd (getitem ld video_name) = ld"
  by (simp add: getitem_def split: option.splits)

subsection \<open>Shapes and concatenation\<close>

lemma has_shape_nth:
  "has_shape a h w c \<Longrightarrow> i < h \<Longrightarrow> length (a ! i) = w"
  by (auto simp: has_shape_def list_all_length)

lemma has_shape_nth2:
  "has_shape a h w c \<Longrightarrow> i < h \<Longrightarrow> j < w \<Longrightarrow> length (a ! i ! j) = c"
  by (auto simp: has_shape_def list_all_length)

lemma has_shape_map: "has_shape a h w c \<Longrightarrow> has_shape (map (map (map f)) a) h w c"
  by (auto simp: has_shape_def list_all_length)

lemma np_load_frame_shape:
  "cv2_contract e \<Longrightarrow> np_load_frame e p rh rw = Inr img \<Longrightarrow> has_shape img rh rw 3"
  unfolding np_load_frame_def cv2_contract_def
  by (auto split: option.splits intro!: has_shape_map)

lemma same_dims_shape: "has_shape f h w c \<Longrightarrow> has_shape g h w c' \<Longrightarrow> same_dims f g"
  by (auto simp: same_dims_def has_shape_def list_all_length list_all2_conv_all_nth)

lemma sum_list_const: "(\<And>x. x \<in> set xs \<Longrightarrow> f x = c) \<Longrightarrow> sum_list (map f xs) = length xs * (c::nat)"
  by (induction xs) auto

lemma concatenate_axis2_shape:
  assumes "fs \<noteq> []" and "\<And>g. g \<in> set fs \<Longrightarrow> has_shape g h w c"
  shows "concatenate_axis2 fs = Inr (channel_concat h w fs)"
    and "has_shape (channel_concat h w fs) h w (c * length fs)"
proof -
  obtain f rest where fs: "fs = f # rest" using assms(1) by (cases fs) auto
  have f: "has_shape f h w c" using assms(2) fs by simp
  have all: "list_all (same_dims f) rest"
    using assms(2) fs f by (auto simp: list_all_iff intro: same_dims_shape)
  have len: "length f = h" using f by (simp add: has_shape_def)
  have "map (\<lambda>i. map (\<lambda>j. concat (map (\<lambda>g. g ! i ! j) fs)) [0..<length (f ! i)]) [0..<length f]
        = channel_concat h w fs"
    unfolding channel_concat_def len
    by (rule map_cong) (auto simp: has_shape_nth[OF f])
  then show "concatenate_axis2 fs = Inr (channel_concat h w fs)"
    using all fs by (simp add: concatenate_axis2_def)
  show "has_shape (channel_concat h w fs) h w (c * length fs)"
  proof -
    have "length (concat (map (\<lambda>g. g ! i ! j) fs)) = c * length fs" if "i < h" "j < w" for i j
    proof -
      have "\<And>g. g \<in> set fs \<Longrightarrow> length (g ! i ! j) = c"
        using has_shape_nth2[OF assms(2) that] .
      then have "sum_list (map (\<lambda>g. length (g ! i ! j)) fs) = length fs * c"
        by (rule sum_list_const)
      then show ?thesis by (simp add: length_concat comp_def mult.commute)
    qed
    then show ?thesis
      by (simp add: has_shape_def channel_concat_def list_all_length)
  qed
qed

subsection \<open>Indexing and the frame loops\<close>

lemma py_index_ok:
  "- int (length xs) \<le> i \<Longrightarrow> i < int (length xs) \<Longrightarrow> py_index xs i = Inr (xs ! py_pos xs i)"
  by (auto simp: py_index_def py_pos_def Let_def)

lemma py_index_Inr:
  "py_index xs i = Inr x \<Longrightarrow>
     - int (length xs) \<le> i \<and> i < int (length xs) \<and> x = xs ! py_pos xs i"
  by (auto simp: py_index_def py_pos_def Let_def split: if_splits)

lemma loads_loaded: "loads e rh rw p \<Longrightarrow> np_load_frame e p rh rw = Inr (loaded e rh rw p)"
  by (auto simp: loads_def loaded_def split: sum.splits)

lemma np_load_frame_Inr: "np_load_frame e p rh rw = Inr img \<Longrightarrow> loads e rh rw p \<and> img = loaded e rh rw p"
  by (auto simp: loads_def loaded_def)

lemma loaded_shape: "cv2_contract e \<Longrightarrow> loads e rh rw p \<Longrightarrow> has_shape (loaded e rh rw p) rh rw 3"
  using np_load_frame_shape loads_loaded by blast

lemma get_video_clips_loop_ok:
  assumes "map_of (videos ld) video = Some info"
    and "\<And>i. i \<in> set ixs \<Longrightarrow> - int (length (frame info)) \<le> i \<and> i < int (length (frame info))
           \<and> loads e (resize_height ld) (resize_width ld) (frame info ! py_pos (frame info) i)"
  shows "get_video_clips_loop e ld video ixs batch =
         Inr (batch @ map (\<lambda>i. loaded e (resize_height ld) (resize_width ld)
                                  (frame info ! py_pos (frame info) i)) ixs)"
  using assms(2)
proof (induction ixs arbitrary: batch)
  case Nil
  then show ?case by simp
next
  case (Cons i ixs)
  have i: "- int (length (frame info)) \<le> i" "i < int (length (frame info))"
    "loads e (resize_height ld) (resize_width ld) (frame info ! py_pos (frame info) i)"
    using Cons.prems[of i] by auto
  show ?case
    using Cons.IH[of "batch @ [loaded e (resize_height ld) (resize_width ld)
                                  (frame info ! py_pos (frame info) i)]"] Cons.prems
    by (simp add: assms(1) py_index_ok[OF i(1,2)] loads_loaded[OF i(3)])
qed

lemma video_clip_loop_Inr:
  "video_clip_loop e vi rh rw ids acc = Inr res \<Longrightarrow>
     (\<forall>i\<in>set ids. - int (length (frame vi)) \<le> i \<and> i < int (length (frame vi))
         \<and> loads e rh rw (frame vi ! py_pos (frame vi) i))
     \<and> res = acc @ map (\<lambda>i. loaded e rh rw (frame vi ! py_pos (frame vi) i)) ids"
proof (induction ids arbitrary: acc)
  case Nil
  then show ?case by simp
next
  case (Cons i ids)
  from Cons.prems obtain filename img where
    f: "py_index (frame vi) i = Inr filename" and l: "np_load_frame e filename rh rw = Inr img"
    and r: "video_clip_loop e vi rh rw ids (acc @ [img]) = Inr res"
    by (auto split: sum.splits)
  from py_index_Inr[OF f] np_load_frame_Inr[OF l] Cons.IH[OF r]
  show ?case by auto
qed

lemma range_nonneg: "0 \<le> a \<Longrightarrow> map nat (range a b) = [nat a..<nat b]"
  unfolding range_def
  by (rule nth_equalityI) (auto simp: nth_upto)

lemma range_empty: "b \<le> a \<Longrightarrow> range a b = []"
  by (simp add: range_def)

lemma set_range: "set (range a b) = {a..<b}"
  by (auto simp: range_def)

lemma py_pos_nonneg: "0 \<le> i \<Longrightarrow> py_pos xs i = nat i"
  by (simp add: py_pos_def)

lemma map_range_nonneg:
  assumes "0 \<le> a"
  shows "map (\<lambda>i. f (py_pos xs i)) (range a b) = map f [nat a..<nat b]"
proof -
  have "map (\<lambda>i. f (py_pos xs i)) (range a b) = map (\<lambda>i. f (nat i)) (range a b)"
    using assms by (intro map_cong refl) (auto simp: set_range py_pos_nonneg)
  also have "\<dots> = map f (map nat (range a b))" by simp
  finally show ?thesis by (simp add: range_nonneg[OF assms])
qed

subsection \<open>The loader: item access and clips by range\<close>

text \<open>Claim C8. \<^verbatim>\<open>__getitem__(video_name)\<close> raises AssertionError exactly when
  \<open>video_name\<close> is not a key of \<^verbatim>\<open>self.videos\<close>; for a key it returns the stored
  record; in both cases the loader is what it was.\<close>

theorem getitem_assertion:
  "(fst (getitem ld video_name) = Inl AssertionError \<longleftrightarrow> video_name \<notin> fst ` set (videos ld))
   \<and> (video_name \<in> fst ` set (videos ld) \<longrightarrow>
        (\<exists>info. map_of (videos ld) video_name = Some info \<and> getitem ld video_name = (Inr info, ld)))
   \<and> snd (getitem ld video_name) = ld"
proof (cases "map_of (videos ld) video_name")
  case None
  then have "video_name \<notin> fst ` set (videos ld)" by (simp add: map_of_eq_None_iff)
  then show ?thesis by (simp add: getitem_def)
next
  case (Some info)
  then have "video_name \<in> fst ` set (videos ld)"
    using map_of_eq_None_iff[of "videos ld" video_name] by auto
  then show ?thesis using Some by (simp add: getitem_def)
qed

lemma ex_loader_videos:
  "videos ex_loader =
     [(''v1'', \<lparr>path = ''data/v1'', frame = [''data/v1/a.jpg'', ''data/v1/b.jpg'', ''data/v1/c.jpg''], length_info = 3\<rparr>),
      (''v2'', \<lparr>path = ''data/v2'', frame = [''data/v2/0.jpg'', ''data/v2/1.jpg''], length_info = 2\<rparr>)]"
  by code_simp

lemma get_video_clips_ok:
  assumes v: "map_of (videos ld) video = Some info"
    and r: "\<And>i. i \<in> set (range start end) \<Longrightarrow>
              - int (length (frame info)) \<le> i \<and> i < int (length (frame info))
              \<and> loads e (resize_height ld) (resize_width ld) (frame info ! py_pos (frame info) i)"
    and ne: "start < end" and cv: "cv2_contract e"
  shows "get_video_clips e ld video start end =
           (Inr (channel_concat (resize_height ld) (resize_width ld)
                  (map (\<lambda>i. loaded e (resize_height ld) (resize_width ld)
                               (frame info ! py_pos (frame info) i)) (range start end))), ld)"
    and "has_shape (channel_concat (resize_height ld) (resize_width ld)
                  (map (\<lambda>i. loaded e (resize_height ld) (resize_width ld)
                               (frame info ! py_pos (frame info) i)) (range start end)))
           (resize_height ld) (resize_width ld) (3 * nat (end - start))"
proof -
  let ?fs = "map (\<lambda>i. loaded e (resize_height ld) (resize_width ld)
                               (frame info ! py_pos (frame info) i)) (range start end)"
  have loop: "get_video_clips_loop e ld video (range start end) [] = Inr ?fs"
    using get_video_clips_loop_ok[OF v r, of "range start end" "[]"] by simp
  have ne': "?fs \<noteq> []" using ne by (simp add: range_def)
  have sh: "\<And>g. g \<in> set ?fs \<Longrightarrow> has_shape g (resize_height ld) (resize_width ld) 3"
    using r loaded_shape[OF cv] by auto
  have len: "length (range start end) = nat (end - start)" by (simp add: range_def)
  show "get_video_clips e ld video start end =
           (Inr (channel_concat (resize_height ld) (resize_width ld) ?fs), ld)"
  proof -
    have "concatenate_axis2 ?fs = Inr (channel_concat (resize_height ld) (resize_width ld) ?fs)"
      using ne' sh by (rule concatenate_axis2_shape(1))
    then show ?thesis by (simp add: get_video_clips_def loop)
  qed
  show "has_shape (channel_concat (resize_height ld) (resize_width ld) ?fs)
           (resize_height ld) (resize_width ld) (3 * nat (end - start))"
    using concatenate_axis2_shape(2)[OF ne' sh] by (simp add: len)
qed

text \<open>Claim C6. For a video of the loader and \<open>0 \<le> start < end \<le> length\<close>, where the
  frames of the range decode, \<^verbatim>\<open>get_video_clips\<close> returns the frames at indices
  start, ..., end - 1, each loaded by \<^verbatim>\<open>np_load_frame\<close>, concatenated along the
  channel axis in that order: an array of shape
  [resize_height, resize_width, 3 * (end - start)].\<close>

theorem get_video_clips_consecutive:
  assumes "map_of (videos ld) video = Some info"
    and "length_info info = length (frame info)"
    and "0 \<le> start" and "start < end" and "end \<le> int (length_info info)"
    and "cv2_contract e"
    and "\<forall>k. nat start \<le> k \<and> k < nat end \<longrightarrow>
           loads e (resize_height ld) (resize_width ld) (frame info ! k)"
  shows "get_video_clips e ld video start end =
           (Inr (channel_concat (resize_height ld) (resize_width ld)
                  (map (\<lambda>k. loaded e (resize_height ld) (resize_width ld) (frame info ! k))
                     [nat start..<nat end])), ld)
         \<and> has_shape (channel_concat (resize_height ld) (resize_width ld)
                  (map (\<lambda>k. loaded e (resize_height ld) (resize_width ld) (frame info ! k))
                     [nat start..<nat end]))
              (resize_height ld) (resize_width ld) (3 * nat (end - start))"
proof -
  have r: "- int (length (frame info)) \<le> i \<and> i < int (length (frame info))
              \<and> loads e (resize_height ld) (resize_width ld) (frame info ! py_pos (frame info) i)"
    if "i \<in> set (range start end)" for i
  proof -
    have i: "start \<le> i" "i < end" using that by (auto simp: set_range)
    then have "nat start \<le> nat i \<and> nat i < nat end" using assms(3) by auto
    then have "loads e (resize_height ld) (resize_width ld) (frame info ! nat i)"
      using assms(7) by blast
    then show ?thesis using i assms(2,3,5) by (simp add: py_pos_nonneg)
  qed
  have m: "map (\<lambda>i. loaded e (resize_height ld) (resize_width ld)
                               (frame info ! py_pos (frame info) i)) (range start end)
         = map (\<lambda>k. loaded e (resize_height ld) (resize_width ld) (frame info ! k))
                     [nat start..<nat end]"
    by (rule map_range_nonneg[OF assms(3)])
  show ?thesis
    using get_video_clips_ok[OF assms(1) r assms(4,6)] unfolding m by simp
qed

text \<open>Claim C10. \<^verbatim>\<open>get_video_clips\<close> validates nothing. With \<open>end \<le> start\<close> the loop
  body never runs and the error is the ValueError of concatenating no array, for
  any video name. With a negative \<open>start\<close> no smaller than minus the number of
  frames it raises nothing: the indices below zero read from the end of the frame
  list, the first of them at position \<open>length - |start|\<close>.\<close>

theorem get_video_clips_unvalidated:
  "(end \<le> start \<longrightarrow> fst (get_video_clips e ld video start end) = Inl ValueError)
   \<and> (map_of (videos ld) video = Some info \<and> start < 0 \<and> - int (length (frame info)) \<le> start
        \<and> start < end \<and> end \<le> int (length (frame info)) \<and> cv2_contract e
        \<and> (\<forall>p \<in> set (frame info). loads e (resize_height ld) (resize_width ld) p)
      \<longrightarrow> fst (get_video_clips e ld video start end) =
            Inr (channel_concat (resize_height ld) (resize_width ld)
                  (map (\<lambda>i. loaded e (resize_height ld) (resize_width ld)
                               (frame info ! py_pos (frame info) i)) (range start end)))
          \<and> py_pos (frame info) start = length (frame info) - nat (- start)
          \<and> hd (range start end) = start)"
proof (intro conjI impI)
  assume "end \<le> start"
  then show "fst (get_video_clips e ld video start end) = Inl ValueError"
    by (simp add: get_video_clips_def range_empty concatenate_axis2_def)
next
  assume a: "map_of (videos ld) video = Some info \<and> start < 0 \<and> - int (length (frame info)) \<le> start
        \<and> start < end \<and> end \<le> int (length (frame info)) \<and> cv2_contract e
        \<and> (\<forall>p \<in> set (frame info). loads e (resize_height ld) (resize_width ld) p)"
  have r: "- int (length (frame info)) \<le> i \<and> i < int (length (frame info))
              \<and> loads e (resize_height ld) (resize_width ld) (frame info ! py_pos (frame info) i)"
    if "i \<in> set (range start end)" for i
  proof -
    have i: "start \<le> i" "i < end" using that by (auto simp: set_range)
    then have "py_pos (frame info) i < length (frame info)"
      using a by (auto simp: py_pos_def)
    then show ?thesis using i a by auto
  qed
  show "fst (get_video_clips e ld video start end) =
            Inr (channel_concat (resize_height ld) (resize_width ld)
                  (map (\<lambda>i. loaded e (resize_height ld) (resize_width ld)
                               (frame info ! py_pos (frame info) i)) (range start end)))"
  proof -
    have v: "map_of (videos ld) video = Some info" and ne: "start < end" and cv: "cv2_contract e"
      using a by auto
    show ?thesis using get_video_clips_ok(1)[OF v r ne cv] by simp
  qed
  show "py_pos (frame info) start = length (frame info) - nat (- start)"
    using a by (auto simp: py_pos_def)
  show "hd (range start end) = start"
    using a by (simp add: range_def upto.simps)
qed

lemma ex_loader_dims: "resize_height ex_loader = 1" "resize_width ex_loader = 1"
  by (simp_all add: ex_loader_def init_def DataLoader_setup_def)

lemma ex_env_contract: "cv2_contract ex_env"
  by (auto simp: cv2_contract_def ex_env_def has_shape_def ex_pixel_def list_all_iff
      split: if_splits)

lemma ex_env_loads: "loads ex_env rh rw p"
  by (simp add: loads_def np_load_frame_def ex_env_def)

lemma ex_env_loaded:
  "loaded ex_env (Suc 0) (Suc 0) ''data/v1/a.jpg'' = [[[- 1, - 1, - 1]]]"
  "loaded ex_env (Suc 0) (Suc 0) ''data/v1/b.jpg'' = [[[1, 1, 1]]]"
  "loaded ex_env (Suc 0) (Suc 0) ''data/v1/c.jpg'' = [[[- 1, 32897 / 8388608, 1]]]"
  by (simp_all add: loaded_def np_load_frame_def ex_env_def ex_pixel_def
      normalize_0 normalize_255 normalize_128)

lemma ex_np_load_frame:
  "np_load_frame ex_env ''data/v1/a.jpg'' (Suc 0) (Suc 0) = Inr [[[- 1, - 1, - 1]]]"
  "np_load_frame ex_env ''data/v1/b.jpg'' (Suc 0) (Suc 0) = Inr [[[1, 1, 1]]]"
  "np_load_frame ex_env ''data/v1/c.jpg'' (Suc 0) (Suc 0) = Inr [[[- 1, 32897 / 8388608, 1]]]"
  using ex_env_loaded loads_loaded[OF ex_env_loads] by simp_all

text \<open>At the example loader: the key v1 gives its record, the missing key v3 the
  assertion.\<close>

theorem getitem_assertion_witness:
  "getitem ex_loader ''v1'' =
     (Inr \<lparr>path = ''data/v1'', frame = [''data/v1/a.jpg'', ''data/v1/b.jpg'', ''data/v1/c.jpg''],
           length_info = 3\<rparr>, ex_loader)
   \<and> fst (getitem ex_loader ''v3'') = Inl AssertionError"
  using getitem_assertion[of ex_loader "''v1''"] getitem_assertion[of ex_loader "''v3''"]
  by (simp add: ex_loader_videos)

text \<open>At the example loader: frames 0 and 1 of v1, a black and a white pixel, give
  one pixel of six channels, the black frame's first.\<close>

theorem get_video_clips_consecutive_witness:
  "get_video_clips ex_env ex_loader ''v1'' 0 2 = (Inr [[[- 1, - 1, - 1, 1, 1, 1]]], ex_loader)
   \<and> has_shape [[[- 1, - 1, - 1, 1, 1, 1 :: real]]] 1 1 6"
  using get_video_clips_consecutive[of ex_loader "''v1''"
      "\<lparr>path = ''data/v1'', frame = [''data/v1/a.jpg'', ''data/v1/b.jpg'', ''data/v1/c.jpg''],
           length_info = 3\<rparr>" 0 2 ex_env]
  by (simp add: ex_loader_videos ex_env_contract ex_env_loads ex_loader_dims ex_env_loaded
      channel_concat_def upt_conv_Cons)

text \<open>At the example loader: the empty range 2..2 raises ValueError, and the range
  -1..0 returns the last frame (position 2 of 3).\<close>

theorem get_video_clips_unvalidated_witness:
  "fst (get_video_clips ex_env ex_loader ''v1'' 2 2) = Inl ValueError
   \<and> fst (get_video_clips ex_env ex_loader ''v1'' (- 1) 0) = Inr [[[- 1, 32897 / 8388608, 1]]]
   \<and> py_pos [''data/v1/a.jpg'', ''data/v1/b.jpg'', ''data/v1/c.jpg''] (- 1) = 2"
  using get_video_clips_unvalidated[of 2 2 ex_env ex_loader "''v1''"]
    get_video_clips_unvalidated[of 0 "- 1" ex_env ex_loader "''v1''"
      "\<lparr>path = ''data/v1'', frame = [''data/v1/a.jpg'', ''data/v1/b.jpg'', ''data/v1/c.jpg''],
           length_info = 3\<rparr>"]
  by (simp add: ex_loader_videos ex_env_contract ex_env_loads ex_loader_dims ex_env_loaded
      channel_concat_def range_def upto.simps py_pos_def)

subsection \<open>The clip generator\<close>

lemma randint_Inr: "randint low high = Inr starts \<Longrightarrow> starts = [low..high - 1]"
  by (auto simp: randint_def split: if_splits)

lemma video_clip_at_Inr:
  assumes "video_clip_at e g vi start = Inr clip" and cv: "cv2_contract e" and s: "0 \<le> start"
  shows "0 < clip_length g \<and> start + clip_length g \<le> int (length (frame vi))
       \<and> (\<forall>k. nat start \<le> k \<and> k < nat (start + clip_length g) \<longrightarrow>
             loads e (gen_resize_height g) (gen_resize_width g) (frame vi ! k))
       \<and> clip = channel_concat (gen_resize_height g) (gen_resize_width g)
                  (map (\<lambda>k. loaded e (gen_resize_height g) (gen_resize_width g) (frame vi ! k))
                     [nat start..<nat (start + clip_length g)])
       \<and> has_shape clip (gen_resize_height g) (gen_resize_width g) (nat (clip_length g * 3))"
proof -
  let ?rh = "gen_resize_height g" and ?rw = "gen_resize_width g"
  let ?r = "range start (start + clip_length g)"
  from assms(1) obtain fs where
    loop: "video_clip_loop e vi ?rh ?rw ?r [] = Inr fs" and cc: "concatenate_axis2 fs = Inr clip"
    by (auto simp: video_clip_at_def split: sum.splits)
  from video_clip_loop_Inr[OF loop] have
    ok: "\<And>i. i \<in> set ?r \<Longrightarrow> - int (length (frame vi)) \<le> i \<and> i < int (length (frame vi))
         \<and> loads e ?rh ?rw (frame vi ! py_pos (frame vi) i)"
    and fs: "fs = map (\<lambda>i. loaded e ?rh ?rw (frame vi ! py_pos (frame vi) i)) ?r"
    by auto
  have fs': "fs = map (\<lambda>k. loaded e ?rh ?rw (frame vi ! k)) [nat start..<nat (start + clip_length g)]"
    unfolding fs by (rule map_range_nonneg[OF s])
  have ne: "fs \<noteq> []" using cc by (auto simp: concatenate_axis2_def)
  then have pos: "0 < clip_length g" using fs by (auto simp: range_def)
  have last: "start + clip_length g - 1 \<in> set ?r" using pos by (simp add: set_range)
  have le: "start + clip_length g \<le> int (length (frame vi))" using ok[OF last] by simp
  have lo: "loads e ?rh ?rw (frame vi ! k)" if "nat start \<le> k \<and> k < nat (start + clip_length g)" for k
  proof -
    have "int k \<in> set ?r" using that s by (auto simp: set_range)
    from ok[OF this] show ?thesis by (simp add: py_pos_nonneg)
  qed
  have sh: "\<And>f. f \<in> set fs \<Longrightarrow> has_shape f ?rh ?rw 3"
    unfolding fs using ok loaded_shape[OF cv] by auto
  have "concatenate_axis2 fs = Inr (channel_concat ?rh ?rw fs)"
    using ne sh by (rule concatenate_axis2_shape(1))
  then have clip: "clip = channel_concat ?rh ?rw fs" using cc by simp
  have "has_shape (channel_concat ?rh ?rw fs) ?rh ?rw (3 * length fs)"
    using ne sh by (rule concatenate_axis2_shape(2))
  moreover have "length fs = nat (clip_length g)" using pos s by (simp add: fs')
  moreover have "3 * nat (clip_length g) = nat (clip_length g * 3)" using pos by simp
  ultimately have "has_shape clip ?rh ?rw (nat (clip_length g * 3))" using clip by simp
  then show ?thesis using pos le lo clip fs' by blast
qed

lemma generator_next_Inr:
  assumes "video_clip_generator_next e g = Inr (g', outs)"
  shows "0 < num_videos g \<and> v_id g' = (v_id g + 1) mod int (num_videos g)
       \<and> g' = g\<lparr>v_id := v_id g'\<rparr>
       \<and> map fst outs = [0..int (length_info (video_info_list g ! nat (v_id g'))) - clip_length g - 1]
       \<and> outs = map (\<lambda>start. (start, video_clip_at e g (video_info_list g ! nat (v_id g')) start))
                  [0..int (length_info (video_info_list g ! nat (v_id g'))) - clip_length g - 1]"
  using assms
  by (auto simp: video_clip_generator_next_def Let_def comp_def
      split: if_splits sum.splits dest!: randint_Inr)

lemma video_clip_generator_yield:
  assumes "video_clip_generator_next e g = Inr (g', outs)"
    and "(start, Inr clip) \<in> set outs"
    and "cv2_contract e"
    and "num_videos g = length (video_info_list g)"
  shows "nat (v_id g') < length (video_info_list g)
       \<and> 0 \<le> start \<and> 0 < clip_length g
       \<and> start + clip_length g \<le> int (length (frame (video_info_list g ! nat (v_id g'))))
       \<and> (\<forall>k. nat start \<le> k \<and> k < nat (start + clip_length g) \<longrightarrow>
             loads e (gen_resize_height g) (gen_resize_width g)
               (frame (video_info_list g ! nat (v_id g')) ! k))
       \<and> clip = channel_concat (gen_resize_height g) (gen_resize_width g)
                  (map (\<lambda>k. loaded e (gen_resize_height g) (gen_resize_width g)
                               (frame (video_info_list g ! nat (v_id g')) ! k))
                     [nat start..<nat (start + clip_length g)])
       \<and> has_shape clip (gen_resize_height g) (gen_resize_width g) (nat (clip_length g * 3))"
proof -
  let ?vi = "video_info_list g ! nat (v_id g')"
  note n = generator_next_Inr[OF assms(1)]
  have v: "nat (v_id g') < length (video_info_list g)"
    using n assms(4) by (simp add: nat_less_iff)
  have "start \<in> set [0..int (length_info ?vi) - clip_length g - 1]
        \<and> video_clip_at e g ?vi start = Inr clip"
    using n assms(2) by auto
  then have s: "0 \<le> start" and c: "video_clip_at e g ?vi start = Inr clip" by auto
  show ?thesis using video_clip_at_Inr[OF c assms(3) s] v s by blast
qed

lemma call_generator:
  "num_videos (fst (call ld batch_size time_steps num_pred)) =
     length (video_info_list (fst (call ld batch_size time_steps num_pred)))
   \<and> video_info_list (fst (call ld batch_size time_steps num_pred)) = map snd (videos ld)
   \<and> clip_length (fst (call ld batch_size time_steps num_pred)) = time_steps + num_pred"
  by (simp add: call_def Let_def)

lemma generator_next_fields:
  assumes "video_clip_generator_next e g = Inr (g', outs)"
  shows "video_info_list g' = video_info_list g \<and> num_videos g' = num_videos g
       \<and> clip_length g' = clip_length g"
  using generator_next_Inr[OF assms] by (metis generator.select_convs(1,2,3) generator.surjective generator.update_convs(6))

lemma video_clip_loop_ok:
  assumes "\<And>i. i \<in> set ids \<Longrightarrow> - int (length (frame vi)) \<le> i \<and> i < int (length (frame vi))
           \<and> loads e rh rw (frame vi ! py_pos (frame vi) i)"
  shows "video_clip_loop e vi rh rw ids acc =
         Inr (acc @ map (\<lambda>i. loaded e rh rw (frame vi ! py_pos (frame vi) i)) ids)"
  using assms
proof (induction ids arbitrary: acc)
  case Nil
  then show ?case by simp
next
  case (Cons i ids)
  have i: "- int (length (frame vi)) \<le> i" "i < int (length (frame vi))"
    "loads e rh rw (frame vi ! py_pos (frame vi) i)"
    using Cons.prems[of i] by auto
  show ?case
    using Cons.IH[of "acc @ [loaded e rh rw (frame vi ! py_pos (frame vi) i)]"] Cons.prems
    by (simp add: py_index_ok[OF i(1,2)] loads_loaded[OF i(3)])
qed

lemma video_clip_at_ok:
  assumes s: "0 \<le> start" and c: "0 < clip_length g"
    and le: "start + clip_length g \<le> int (length (frame vi))"
    and cv: "cv2_contract e"
    and lo: "\<forall>p \<in> set (frame vi). loads e (gen_resize_height g) (gen_resize_width g) p"
  shows "video_clip_at e g vi start =
           Inr (channel_concat (gen_resize_height g) (gen_resize_width g)
                  (map (\<lambda>k. loaded e (gen_resize_height g) (gen_resize_width g) (frame vi ! k))
                     [nat start..<nat (start + clip_length g)]))"
proof -
  let ?rh = "gen_resize_height g" and ?rw = "gen_resize_width g"
  let ?r = "range start (start + clip_length g)"
  let ?fs = "map (\<lambda>i. loaded e ?rh ?rw (frame vi ! py_pos (frame vi) i)) ?r"
  have ok: "- int (length (frame vi)) \<le> i \<and> i < int (length (frame vi))
         \<and> loads e ?rh ?rw (frame vi ! py_pos (frame vi) i)" if "i \<in> set ?r" for i
  proof -
    have i: "start \<le> i" "i < start + clip_length g" using that by (auto simp: set_range)
    then have "py_pos (frame vi) i < length (frame vi)" using s le by (simp add: py_pos_nonneg)
    then show ?thesis using i s le lo by auto
  qed
  have loop: "video_clip_loop e vi ?rh ?rw ?r [] = Inr ?fs"
    using video_clip_loop_ok[of ?r vi e ?rh ?rw "[]"] ok by simp
  have ne: "?fs \<noteq> []" using c by (simp add: range_def)
  have sh: "\<And>f. f \<in> set ?fs \<Longrightarrow> has_shape f ?rh ?rw 3"
    using ok loaded_shape[OF cv] by auto
  have "concatenate_axis2 ?fs = Inr (channel_concat ?rh ?rw ?fs)"
    using ne sh by (rule concatenate_axis2_shape(1))
  then have "video_clip_at e g vi start = Inr (channel_concat ?rh ?rw ?fs)"
    by (simp add: video_clip_at_def loop)
  moreover have "?fs = map (\<lambda>k. loaded e ?rh ?rw (frame vi ! k))
                         [nat start..<nat (start + clip_length g)]"
    by (rule map_range_nonneg[OF s])
  ultimately show ?thesis by (simp only:)
qed

text \<open>Claim C5. Where the next video holds more frames than a clip and they decode,
  an iteration of the generator succeeds and, for each start the draw can give,
  yields the frames at indices start, start + 1, ..., start + clip_length - 1 of that
  one video, loaded and concatenated along the channel axis in that order.
  Conversely, whatever the environment, every clip an iteration yields is such a
  clip: its frames lie inside the video at the new \<open>v_id\<close>, and its shape is
  [resize_height, resize_width, clip_length * 3].\<close>

theorem video_clip_generator_consecutive:
  "(num_videos g = length (video_info_list g) \<and> 0 < num_videos g
      \<and> vi = video_info_list g ! nat ((v_id g + 1) mod int (num_videos g))
      \<and> length_info vi = length (frame vi)
      \<and> 0 < clip_length g \<and> clip_length g < int (length_info vi)
      \<and> cv2_contract e
      \<and> (\<forall>p \<in> set (frame vi). loads e (gen_resize_height g) (gen_resize_width g) p)
    \<longrightarrow> video_clip_generator_next e g =
          Inr (g\<lparr>v_id := (v_id g + 1) mod int (num_videos g)\<rparr>,
               map (\<lambda>start. (start,
                      Inr (channel_concat (gen_resize_height g) (gen_resize_width g)
                            (map (\<lambda>k. loaded e (gen_resize_height g) (gen_resize_width g)
                                         (frame vi ! k))
                               [nat start..<nat (start + clip_length g)]))))
                 [0..int (length_info vi) - clip_length g - 1])
        \<and> vi \<in> set (video_info_list g))
   \<and> (video_clip_generator_next e g = Inr (g', outs) \<and> (start, Inr clip) \<in> set outs
      \<and> cv2_contract e \<and> num_videos g = length (video_info_list g)
    \<longrightarrow> nat (v_id g') < length (video_info_list g)
       \<and> 0 \<le> start \<and> 0 < clip_length g
       \<and> start + clip_length g \<le> int (length (frame (video_info_list g ! nat (v_id g'))))
       \<and> (\<forall>k. nat start \<le> k \<and> k < nat (start + clip_length g) \<longrightarrow>
             loads e (gen_resize_height g) (gen_resize_width g)
               (frame (video_info_list g ! nat (v_id g')) ! k))
       \<and> clip = channel_concat (gen_resize_height g) (gen_resize_width g)
                  (map (\<lambda>k. loaded e (gen_resize_height g) (gen_resize_width g)
                               (frame (video_info_list g ! nat (v_id g')) ! k))
                     [nat start..<nat (start + clip_length g)])
       \<and> has_shape clip (gen_resize_height g) (gen_resize_width g) (nat (clip_length g * 3)))"
proof (intro conjI impI)
  assume a: "num_videos g = length (video_info_list g) \<and> 0 < num_videos g
      \<and> vi = video_info_list g ! nat ((v_id g + 1) mod int (num_videos g))
      \<and> length_info vi = length (frame vi)
      \<and> 0 < clip_length g \<and> clip_length g < int (length_info vi)
      \<and> cv2_contract e
      \<and> (\<forall>p \<in> set (frame vi). loads e (gen_resize_height g) (gen_resize_width g) p)"
  let ?v = "(v_id g + 1) mod int (num_videos g)"
  from a have nv: "0 < num_videos g" and l: "num_videos g = length (video_info_list g)"
    and vi: "vi = video_info_list g ! nat ?v" and li: "length_info vi = length (frame vi)"
    and c: "0 < clip_length g" and cl: "clip_length g < int (length_info vi)"
    and cv: "cv2_contract e"
    and lo: "\<forall>p \<in> set (frame vi). loads e (gen_resize_height g) (gen_resize_width g) p"
    by blast+
  have v: "0 \<le> ?v" "?v < int (num_videos g)" using nv by simp_all
  then have "nat ?v < length (video_info_list g)" unfolding l[symmetric] by (simp add: nat_less_iff)
  then show "vi \<in> set (video_info_list g)" unfolding vi by (rule nth_mem)
  have r: "randint 0 (int (length_info vi) - clip_length g) =
           Inr [0..int (length_info vi) - clip_length g - 1]"
    using cl by (simp add: randint_def)
  have at: "video_clip_at e g vi start =
           Inr (channel_concat (gen_resize_height g) (gen_resize_width g)
                  (map (\<lambda>k. loaded e (gen_resize_height g) (gen_resize_width g) (frame vi ! k))
                     [nat start..<nat (start + clip_length g)]))"
    if "start \<in> set [0..int (length_info vi) - clip_length g - 1]" for start
    using that c li cv lo by (intro video_clip_at_ok) auto
  have "map (\<lambda>start. (start, video_clip_at e g vi start))
          [0..int (length_info vi) - clip_length g - 1]
      = map (\<lambda>start. (start,
                      Inr (channel_concat (gen_resize_height g) (gen_resize_width g)
                            (map (\<lambda>k. loaded e (gen_resize_height g) (gen_resize_width g)
                                         (frame vi ! k))
                               [nat start..<nat (start + clip_length g)]))))
          [0..int (length_info vi) - clip_length g - 1]"
    by (rule map_cong[OF refl]) (simp only: at)
  moreover have "video_clip_generator_next e g =
      Inr (g\<lparr>v_id := ?v\<rparr>, map (\<lambda>start. (start, video_clip_at e g vi start))
          [0..int (length_info vi) - clip_length g - 1])"
    using nv by (simp add: video_clip_generator_next_def Let_def vi[symmetric] r)
  ultimately show "video_clip_generator_next e g =
          Inr (g\<lparr>v_id := ?v\<rparr>,
               map (\<lambda>start. (start,
                      Inr (channel_concat (gen_resize_height g) (gen_resize_width g)
                            (map (\<lambda>k. loaded e (gen_resize_height g) (gen_resize_width g)
                                         (frame vi ! k))
                               [nat start..<nat (start + clip_length g)]))))
                 [0..int (length_info vi) - clip_length g - 1])"
    by (simp only:)
next
  assume b: "video_clip_generator_next e g = Inr (g', outs) \<and> (start, Inr clip) \<in> set outs
      \<and> cv2_contract e \<and> num_videos g = length (video_info_list g)"
  then have n: "video_clip_generator_next e g = Inr (g', outs)" and m: "(start, Inr clip) \<in> set outs"
    and cv: "cv2_contract e" and l: "num_videos g = length (video_info_list g)" by auto
  note y = video_clip_generator_yield[OF n m cv l]
  show "nat (v_id g') < length (video_info_list g)" using y by blast
  show "0 \<le> start" using y by blast
  show "0 < clip_length g" using y by blast
  show "start + clip_length g \<le> int (length (frame (video_info_list g ! nat (v_id g'))))"
    using y by blast
  show "\<forall>k. nat start \<le> k \<and> k < nat (start + clip_length g) \<longrightarrow>
             loads e (gen_resize_height g) (gen_resize_width g)
               (frame (video_info_list g ! nat (v_id g')) ! k)" using y by blast
  show "clip = channel_concat (gen_resize_height g) (gen_resize_width g)
                  (map (\<lambda>k. loaded e (gen_resize_height g) (gen_resize_width g)
                               (frame (video_info_list g ! nat (v_id g')) ! k))
                     [nat start..<nat (start + clip_length g)])" using y by blast
  show "has_shape clip (gen_resize_height g) (gen_resize_width g) (nat (clip_length g * 3))"
    using y by blast
qed

lemma ex_generator_fields:
  "num_videos ex_generator = 2" "length (video_info_list ex_generator) = 2"
  "clip_length ex_generator = 2" "v_id ex_generator = - 1"
  "gen_resize_height ex_generator = 1" "gen_resize_width ex_generator = 1"
  "video_info_list ex_generator ! 0 =
     \<lparr>path = ''data/v1'', frame = [''data/v1/a.jpg'', ''data/v1/b.jpg'', ''data/v1/c.jpg''],
       length_info = 3\<rparr>"
  by (simp_all add: ex_generator_def call_def ex_loader_dims ex_loader_videos)

lemma ex_generator_next:
  "video_clip_generator_next ex_env ex_generator =
     Inr (ex_generator\<lparr>v_id := 0\<rparr>, [(0, Inr [[[- 1, - 1, - 1, 1, 1, 1]]])])"
  by (simp add: ex_generator_fields video_clip_generator_next_def randint_def upto.simps
      video_clip_at_def range_def py_index_def ex_np_load_frame
      concatenate_axis2_def same_dims_def)

text \<open>At the example generator (clip length 2, first video of three frames): the
  iteration moves to video 0 and its one possible start, 0, yields the black frame
  followed by the white one.\<close>

theorem video_clip_generator_consecutive_witness:
  "video_clip_generator_next ex_env ex_generator =
     Inr (ex_generator\<lparr>v_id := 0\<rparr>, [(0, Inr [[[- 1, - 1, - 1, 1, 1, 1]]])])"
  using video_clip_generator_consecutive[of ex_generator
      "\<lparr>path = ''data/v1'', frame = [''data/v1/a.jpg'', ''data/v1/b.jpg'', ''data/v1/c.jpg''],
        length_info = 3\<rparr>" ex_env]
  by (simp add: ex_generator_fields ex_env_contract ex_env_loads ex_env_loaded
      channel_concat_def upt_conv_Cons upto.simps)

lemma ex_last_window:
  "fst (get_video_clips ex_env ex_loader ''v1'' 1 3) =
       Inr [[[1, 1, 1, - 1, 32897 / 8388608, 1]]]"
  by (simp add: get_video_clips_def range_def upto.simps
      ex_loader_videos ex_loader_dims py_index_def ex_np_load_frame
      concatenate_axis2_def same_dims_def)

text \<open>Claim C1, at a video of L = 3 frames and clip length c = 2: the only start the
  generator can draw is 0, because \<^verbatim>\<open>rng.randint(0, L - c)\<close> excludes its upper bound.
  The window that starts at L - c = 1 fits in the video (\<^verbatim>\<open>get_video_clips\<close> returns
  it) and is never sampled.\<close>

theorem clip_start_excludes_last_window:
  "map fst (snd (projr (video_clip_generator_next ex_env ex_generator))) = [0]
   \<and> int (length_info (video_info_list ex_generator ! 0)) - clip_length ex_generator = 1
   \<and> fst (get_video_clips ex_env ex_loader ''v1'' 1 3) =
       Inr [[[1, 1, 1, - 1, 32897 / 8388608, 1]]]"
  by (simp add: ex_generator_next ex_generator_fields ex_last_window)

subsection \<open>The invariant of the video dictionary\<close>

lemma set_update_subset: "set (AList.update k v al) \<subseteq> insert (k, v) (set al)"
  by (induction al) auto

lemma setup_video_ok:
  assumes "list_all (\<lambda>(name, info). video_ok e info) vs"
  shows "list_all (\<lambda>(name, info). video_ok e info) (setup_video e vs video)"
proof -
  let ?fr = "sort (glob e (os_path_join video ''*.jpg''))"
  let ?info = "\<lparr>path = video, frame = ?fr, length_info = length ?fr\<rparr>"
  have "video_ok e ?info" by (simp add: video_ok_def)
  then show ?thesis
    using assms set_update_subset[of "last (split (CHR ''/'') video)" ?info vs]
    by (auto simp: setup_video_def Let_def list_all_iff)
qed

lemma foldl_setup_video_ok:
  "list_all (\<lambda>(name, info). video_ok e info) vs \<Longrightarrow>
   list_all (\<lambda>(name, info). video_ok e info) (foldl (setup_video e) vs paths)"
  by (induction paths arbitrary: vs) (simp_all add: setup_video_ok)

lemma get_video_clips_state: "snd (get_video_clips e ld video start end) = ld"
  by (simp add: get_video_clips_def split: sum.splits)

text \<open>Claim C9. After \<^verbatim>\<open>__init__\<close> (which runs \<^verbatim>\<open>setup\<close>) every entry of \<^verbatim>\<open>self.videos\<close>
  has \<open>length\<close> equal to the number of its frames, its frame list sorted in
  ascending lexicographic order and holding exactly the paths glob found for
  \<^verbatim>\<open>*.jpg\<close> under the video's path; running \<^verbatim>\<open>setup\<close> again keeps this, and
  \<^verbatim>\<open>__call__\<close>, \<^verbatim>\<open>__getitem__\<close> and \<^verbatim>\<open>get_video_clips\<close> leave the loader as it was.\<close>

theorem setup_invariant:
  "loader_inv e (init e video_folder rh rw)
   \<and> (loader_inv e ld \<longrightarrow> loader_inv e (DataLoader_setup e ld))
   \<and> snd (call ld batch_size time_steps num_pred) = ld
   \<and> snd (getitem ld video_name) = ld
   \<and> snd (get_video_clips e ld video start end) = ld"
  by (simp add: loader_inv_def init_def DataLoader_setup_def foldl_setup_video_ok
      call_def Let_def getitem_state get_video_clips_state)

text \<open>At the example directory: glob lists the frames out of order, the loader holds
  them sorted.\<close>

theorem setup_invariant_witness:
  "loader_inv ex_env ex_loader
   \<and> map (frame \<circ> snd) (videos ex_loader) =
       [[''data/v1/a.jpg'', ''data/v1/b.jpg'', ''data/v1/c.jpg''], [''data/v2/0.jpg'', ''data/v2/1.jpg'']]
   \<and> loader_inv ex_env (DataLoader_setup ex_env ex_loader)"
  using setup_invariant[of ex_env "''data''" 1 1 ex_loader, folded ex_loader_def]
  by (simp add: ex_loader_videos)

subsection \<open>Frame loading\<close>

text \<open>Claim C4. For a file that decodes, \<^verbatim>\<open>np_load_frame\<close> returns the image resized with
  \<^verbatim>\<open>cv2.resize(img, (resize_width, resize_height))\<close>, each 8-bit value \<open>v\<close> mapped to
  the float32 result of \<open>v / 127.5 - 1.0\<close>, the quotient and the difference each
  rounded to float32. Every element of the result lies in [-1, 1] and is within
  \<open>3 / 2 ^ 24\<close> of the exact \<open>v / 127.5 - 1\<close>; the result has shape
  [resize_height, resize_width, 3] when the resize does what OpenCV promises.\<close>

theorem np_load_frame_normalized:
  assumes "imread e filename = Some image_decoded"
    and "resize e image_decoded (rw, rh) = Some image_resized"
  shows "np_load_frame e filename rh rw =
           Inr (map (map (map (\<lambda>v. float32 (float32 (real (unat v) / 127.5) - 1.0)))) image_resized)
       \<and> (\<forall>row \<in> set (projr (np_load_frame e filename rh rw)).
            \<forall>px \<in> set row. \<forall>x \<in> set px. - 1 \<le> x \<and> x \<le> 1)
       \<and> (\<forall>row \<in> set image_resized. \<forall>px \<in> set row. \<forall>v \<in> set px.
            \<bar>float32 (float32 (real (unat v) / 127.5) - 1.0) - (real (unat v) / 127.5 - 1)\<bar>
              \<le> 3 / 2 ^ 24)
       \<and> (cv2_contract e \<longrightarrow>
            has_shape (projr (np_load_frame e filename rh rw)) rh rw 3)"
proof -
  have eq: "np_load_frame e filename rh rw =
           Inr (map (map (map normalize)) image_resized)"
    using assms by (simp add: np_load_frame_def)
  have n: "normalize = (\<lambda>v. float32 (float32 (real (unat v) / 127.5) - 1.0))"
    by (rule ext) (simp only: normalize_def)
  have r: "\<forall>row \<in> set (map (map (map normalize)) image_resized).
            \<forall>px \<in> set row. \<forall>x \<in> set px. - 1 \<le> x \<and> x \<le> 1"
    using normalize_range by auto
  have d: "\<forall>row \<in> set image_resized. \<forall>px \<in> set row. \<forall>v \<in> set px.
            \<bar>normalize v - (real (unat v) / 127.5 - 1)\<bar> \<le> 3 / 2 ^ 24"
    using normalize_err by blast
  have s: "has_shape (map (map (map normalize)) image_resized) rh rw 3"
    if "cv2_contract e"
    using np_load_frame_shape[OF that eq] .
  have "np_load_frame e filename rh rw = Inr (map (map (map normalize)) image_resized)
       \<and> (\<forall>row \<in> set (projr (np_load_frame e filename rh rw)).
            \<forall>px \<in> set row. \<forall>x \<in> set px. - 1 \<le> x \<and> x \<le> 1)
       \<and> (\<forall>row \<in> set image_resized. \<forall>px \<in> set row. \<forall>v \<in> set px.
            \<bar>normalize v - (real (unat v) / 127.5 - 1)\<bar> \<le> 3 / 2 ^ 24)
       \<and> (cv2_contract e \<longrightarrow>
            has_shape (projr (np_load_frame e filename rh rw)) rh rw 3)"
    using r d s unfolding eq by simp
  then show ?thesis unfolding n .
qed

lemma ex_imread: "imread ex_env ''data/v1/c.jpg'' = Some [[ex_pixel]]"
  by (simp add: ex_env_def)

lemma ex_resize: "resize ex_env [[ex_pixel]] (2, 1) = Some [[ex_pixel, ex_pixel]]"
  by (simp add: ex_env_def numeral_2_eq_2)

lemma ex_normalized:
  "float32 (float32 (real (unat (0 :: 8 word)) / 127.5) - 1.0) = - 1"
  "float32 (float32 (real (unat (128 :: 8 word)) / 127.5) - 1.0) = 32897 / 8388608"
  "float32 (float32 (real (unat (255 :: 8 word)) / 127.5) - 1.0) = 1"
  using normalize_0 normalize_128 normalize_255 unfolding normalize_def by blast+

text \<open>At the example environment: resizing to height 1 and width 2 gives two
  pixels, the bytes 0, 128 and 255 mapped to -1, 32897 / 2 ^ 23 (the exact 1 / 255
  is not a float32) and 1.\<close>

theorem np_load_frame_normalized_witness:
  "np_load_frame ex_env ''data/v1/c.jpg'' 1 2 =
     Inr [[[- 1, 32897 / 2 ^ 23, 1], [- 1, 32897 / 2 ^ 23, 1]]]
   \<and> has_shape (projr (np_load_frame ex_env ''data/v1/c.jpg'' 1 2)) 1 2 3"
proof -
  note t = np_load_frame_normalized[OF ex_imread ex_resize]
  have "np_load_frame ex_env ''data/v1/c.jpg'' 1 2 =
     Inr [[[- 1, 32897 / 8388608, 1], [- 1, 32897 / 8388608, 1]]]"
    using t unfolding ex_pixel_def by (simp only: list.map ex_normalized)
  moreover have "has_shape (projr (np_load_frame ex_env ''data/v1/c.jpg'' 1 2)) 1 2 3"
    using t ex_env_contract by blast
  ultimately show ?thesis by simp
qed

subsection \<open>Saving a checkpoint\<close>

text \<open>Claim C7. Unless \<^verbatim>\<open>os.makedirs\<close> raises, \<^verbatim>\<open>save\<close> calls \<^verbatim>\<open>os.makedirs(logdir)\<close>
  exactly when \<open>logdir\<close> does not exist, then \<^verbatim>\<open>saver.save\<close> once, on
  \<^verbatim>\<open>os.path.join(logdir, 'model.ckpt')\<close> with \<open>global_step = step\<close>, then prints; it
  touches nothing else, and what \<^verbatim>\<open>saver.save\<close> raises is what \<^verbatim>\<open>save\<close> raises. An
  error of \<^verbatim>\<open>os.makedirs\<close> ends the call before \<^verbatim>\<open>saver.save\<close>: nothing recovers
  from it. For a non-empty \<open>logdir\<close> without a trailing slash the path is
  \<open>logdir/model.ckpt\<close>.\<close>

theorem save_single_call:
  "(path_exists w logdir \<or> makedirs w logdir = None \<longrightarrow>
      fst (save w sess logdir step) =
        (if path_exists w logdir then [] else [Makedirs logdir])
        @ [SaverSave sess (os_path_join logdir ''model.ckpt'') step]
        @ (if saver_save w sess (os_path_join logdir ''model.ckpt'') step = None
           then [Print ''The checkpoint has been created.''] else [])
      \<and> snd (save w sess logdir step) = saver_save w sess (os_path_join logdir ''model.ckpt'') step)
   \<and> (\<not> path_exists w logdir \<and> makedirs w logdir = Some err \<longrightarrow>
        save w sess logdir step = ([Makedirs logdir], Some err))
   \<and> (logdir \<noteq> [] \<and> last logdir \<noteq> CHR ''/'' \<longrightarrow>
        os_path_join logdir ''model.ckpt'' = logdir @ ''/model.ckpt'')"
  by (auto simp: save_def Let_def os_path_join_def split: option.splits)

text \<open>In the example world: an existing directory is not created again, a missing
  one is created first, and the empty path, which \<^verbatim>\<open>os.makedirs\<close> refuses, ends the
  call with its error.\<close>

theorem save_single_call_witness:
  "save ex_world () ''logs'' 7 =
     ([SaverSave () ''logs/model.ckpt'' 7, Print ''The checkpoint has been created.''], None)
   \<and> save ex_world () ''out/run1'' 7 =
     ([Makedirs ''out/run1'', SaverSave () ''out/run1/model.ckpt'' 7,
       Print ''The checkpoint has been created.''], None)
   \<and> save ex_world () '''' 7 = ([Makedirs ''''], Some OSError)"
  using save_single_call[of ex_world "''logs''" "()" 7]
    save_single_call[of ex_world "''out/run1''" "()" 7]
    save_single_call[of ex_world "''''" "()" 7 OSError]
  by (simp add: ex_world_def prod_eq_iff)

end
